theory Spec2Isabelle
  imports Main "HOL-Library.AList"
begin

section \<open>Data model (shared/schema.ts)\<close>

text \<open>
  The three tables of \<^verbatim>\<open>shared/schema.ts\<close> become records. Field names that occur in
  more than one table carry the table's name as a prefix (\<open>id\<close>, \<open>createdAt\<close>,
  \<open>patientAddress\<close>); every other field keeps the name it has in the source.
  Ids are the non-negative integers of a \<^verbatim>\<open>serial\<close> column.
\<close>

datatype Role = Patient | Doctor

datatype Duration = OneDay | SevenDays | ThirtyDays | Permanent

text \<open>
  \<^verbatim>\<open>createdAt\<close> is set to \<^verbatim>\<open>new Date()\<close> by the store, a Date object holding an instant
  (milliseconds since the epoch). \<^verbatim>\<open>JSON.stringify\<close> writes a Date as its ISO-8601 string,
  and \<^verbatim>\<open>JSON.parse\<close> gives that string back as a string: \<open>IsoString t\<close> stands for the
  ISO string of the instant \<open>t\<close>.
\<close>

datatype CreatedAt = DateObject int | IsoString int

record User =
  user_id :: nat
  address :: string
  role :: Role
  user_createdAt :: CreatedAt

record MedicalRecord =
  record_id :: nat
  title :: string
  recordType :: string
  recordDate :: string
  record_patientAddress :: string
  filePath :: string
  fileHash :: string
  transactionHash :: string
  record_createdAt :: CreatedAt

record Access =
  access_id :: nat
  access_patientAddress :: string
  doctorAddress :: string
  recordIds :: "nat list"
  duration :: Duration
  access_createdAt :: CreatedAt

text \<open>The request part of a record upload: \<^verbatim>\<open>InsertMedicalRecord & { filePath: string }\<close>.\<close>

record InsertMedicalRecord =
  ins_title :: string
  ins_recordType :: string
  ins_recordDate :: string
  ins_patientAddress :: string
  ins_filePath :: string

section \<open>Strings: \<^verbatim>\<open>toLowerCase\<close>\<close>

text \<open>
  Addresses are compared after \<^verbatim>\<open>toLowerCase()\<close>. A \<open>char\<close> is a byte, and the letters
  \<open>A\<close> to \<open>Z\<close> (65 to 90) are mapped to \<open>a\<close> to \<open>z\<close>; every other byte is kept.
\<close>

definition lowerChar :: "char \<Rightarrow> char" where
  "lowerChar c =
     (let n = (of_char c :: nat) in if 65 \<le> n \<and> n \<le> 90 then char_of (n + 32) else c)"

definition toLowerCase :: "string \<Rightarrow> string" where
  "toLowerCase s = map lowerChar s"

section \<open>The JavaScript containers the store uses\<close>

text \<open>
  A \<^verbatim>\<open>Map<number, T>\<close> keeps its entries in insertion order: it is an association list.
  \<^verbatim>\<open>set\<close> replaces the value of a present key in place and appends an absent key,
  \<^verbatim>\<open>delete\<close> removes the key and answers whether it was present,
  \<^verbatim>\<open>new Map(entries)\<close> sets the entries one after the other.
\<close>

type_synonym 'v JsMap = "(nat \<times> 'v) list"

definition Map_get :: "'v JsMap \<Rightarrow> nat \<Rightarrow> 'v option" where
  "Map_get m k = map_of m k"

definition Map_has :: "'v JsMap \<Rightarrow> nat \<Rightarrow> bool" where
  "Map_has m k = (map_of m k \<noteq> None)"

definition Map_set :: "nat \<Rightarrow> 'v \<Rightarrow> 'v JsMap \<Rightarrow> 'v JsMap" where
  "Map_set k v m = AList.update k v m"

definition Map_delete :: "nat \<Rightarrow> 'v JsMap \<Rightarrow> 'v JsMap" where
  "Map_delete k m = AList.delete k m"

definition Map_values :: "'v JsMap \<Rightarrow> 'v list" where
  "Map_values m = map snd m"

definition Map_keys :: "'v JsMap \<Rightarrow> nat list" where
  "Map_keys m = map fst m"

definition Map_new :: "(nat \<times> 'v) list \<Rightarrow> 'v JsMap" where
  "Map_new es = fold (\<lambda>(k, v) m. Map_set k v m) es []"

text \<open>
  A plain object with integer keys lists its keys in ascending order, whatever the order
  they were written in: \<^verbatim>\<open>Object.fromEntries\<close> builds the ordered list, and
  \<^verbatim>\<open>Object.entries\<close> reads it off.
\<close>

fun Object_put :: "nat \<Rightarrow> 'v \<Rightarrow> (nat \<times> 'v) list \<Rightarrow> (nat \<times> 'v) list" where
  "Object_put k v [] = [(k, v)]"
| "Object_put k v (p # ps) =
     (if fst p = k then (k, v) # ps
      else if k < fst p then (k, v) # p # ps
      else p # Object_put k v ps)"

definition Object_fromEntries :: "(nat \<times> 'v) list \<Rightarrow> (nat \<times> 'v) list" where
  "Object_fromEntries es = fold (\<lambda>(k, v) obj. Object_put k v obj) es []"

text \<open>\<^verbatim>\<open>Math.max(...keys, 0)\<close>.\<close>

definition Math_max0 :: "nat list \<Rightarrow> nat" where
  "Math_max0 ks = fold max ks 0"

text \<open>\<^verbatim>\<open>Array.from(new Set(xs))\<close>: the distinct elements, each at its first occurrence.\<close>

definition Set_toArray :: "'a list \<Rightarrow> 'a list" where
  "Set_toArray xs = fold (\<lambda>x acc. if x \<in> set acc then acc else acc @ [x]) xs []"

section \<open>The store (server/storage.ts)\<close>

text \<open>
  The JSON document of \<^verbatim>\<open>data.json\<close>: three objects keyed by id, each of which may be
  missing from a document that the store did not write itself. The file is absent,
  unparsable, or holds a document.
\<close>

record Document =
  doc_users :: "(nat \<times> User) list option"
  doc_medicalRecords :: "(nat \<times> MedicalRecord) list option"
  doc_accessPermissions :: "(nat \<times> Access) list option"

datatype DataFile = NoFile | Malformed | Json Document

text \<open>
  The state of \<^verbatim>\<open>MemStorage\<close>: its three maps and three counters, together with the part
  of the file system it reads and writes (the data file and the uploaded files).
\<close>

record MemStorage =
  users :: "User JsMap"
  medicalRecords :: "MedicalRecord JsMap"
  accessPermissions :: "Access JsMap"
  currentUserId :: nat
  currentRecordId :: nat
  currentAccessId :: nat
  dataFile :: DataFile
  files :: "string set"

subsection \<open>Persistence: \<^verbatim>\<open>saveData\<close> and \<^verbatim>\<open>loadData\<close>\<close>

fun toJSON :: "CreatedAt \<Rightarrow> CreatedAt" where
  "toJSON (DateObject t) = IsoString t"
| "toJSON (IsoString t) = IsoString t"

definition jsonUser :: "User \<Rightarrow> User" where
  "jsonUser u = u\<lparr>user_createdAt := toJSON (user_createdAt u)\<rparr>"

definition jsonRecord :: "MedicalRecord \<Rightarrow> MedicalRecord" where
  "jsonRecord r = r\<lparr>record_createdAt := toJSON (record_createdAt r)\<rparr>"

definition jsonAccess :: "Access \<Rightarrow> Access" where
  "jsonAccess a = a\<lparr>access_createdAt := toJSON (access_createdAt a)\<rparr>"

text \<open>
  \<^verbatim>\<open>saveData\<close> writes the three maps as objects; the write is taken to succeed (a failed
  write is logged and the store goes on).
\<close>

definition saveData :: "MemStorage \<Rightarrow> MemStorage" where
  "saveData s =
     s\<lparr>dataFile := Json
         \<lparr>doc_users = Some (map (apsnd jsonUser) (Object_fromEntries (users s))),
          doc_medicalRecords =
            Some (map (apsnd jsonRecord) (Object_fromEntries (medicalRecords s))),
          doc_accessPermissions =
            Some (map (apsnd jsonAccess) (Object_fromEntries (accessPermissions s)))\<rparr>\<rparr>"

definition loadUsers :: "Document \<Rightarrow> MemStorage \<Rightarrow> MemStorage" where
  "loadUsers d s =
     (case doc_users d of
        None \<Rightarrow> s
      | Some es \<Rightarrow>
          (let m = Map_new es
           in s\<lparr>users := m, currentUserId := Math_max0 (Map_keys m) + 1\<rparr>))"

definition loadMedicalRecords :: "Document \<Rightarrow> MemStorage \<Rightarrow> MemStorage" where
  "loadMedicalRecords d s =
     (case doc_medicalRecords d of
        None \<Rightarrow> s
      | Some es \<Rightarrow>
          (let m = Map_new es
           in s\<lparr>medicalRecords := m, currentRecordId := Math_max0 (Map_keys m) + 1\<rparr>))"

definition loadAccessPermissions :: "Document \<Rightarrow> MemStorage \<Rightarrow> MemStorage" where
  "loadAccessPermissions d s =
     (case doc_accessPermissions d of
        None \<Rightarrow> s
      | Some es \<Rightarrow>
          (let m = Map_new es
           in s\<lparr>accessPermissions := m, currentAccessId := Math_max0 (Map_keys m) + 1\<rparr>))"

definition loadData :: "MemStorage \<Rightarrow> MemStorage" where
  "loadData s =
     (case dataFile s of
        NoFile \<Rightarrow> s
      | Malformed \<Rightarrow> s
      | Json d \<Rightarrow> loadAccessPermissions d (loadMedicalRecords d (loadUsers d s)))"

text \<open>The constructor: empty maps, counters at 1, then \<^verbatim>\<open>loadData\<close>.\<close>

definition MemStorage_new :: "DataFile \<Rightarrow> string set \<Rightarrow> MemStorage" where
  "MemStorage_new disk fs =
     loadData \<lparr>users = [], medicalRecords = [], accessPermissions = [],
               currentUserId = 1, currentRecordId = 1, currentAccessId = 1,
               dataFile = disk, files = fs\<rparr>"

subsection \<open>User operations\<close>

definition getUser :: "MemStorage \<Rightarrow> nat \<Rightarrow> User option" where
  "getUser s i = Map_get (users s) i"

definition getUserByAddress :: "MemStorage \<Rightarrow> string \<Rightarrow> User option" where
  "getUserByAddress s a =
     find (\<lambda>user. toLowerCase (address user) = toLowerCase a) (Map_values (users s))"

text \<open>\<open>now\<close> is the value of \<^verbatim>\<open>new Date()\<close> at the call.\<close>

definition createUser :: "MemStorage \<Rightarrow> string \<Rightarrow> Role \<Rightarrow> int \<Rightarrow> User \<times> MemStorage" where
  "createUser s a r now =
     (let i = currentUserId s;
          user = \<lparr>user_id = i, address = a, role = r, user_createdAt = DateObject now\<rparr>
      in (user, saveData (s\<lparr>currentUserId := i + 1, users := Map_set i user (users s)\<rparr>)))"

subsection \<open>Medical record operations\<close>

definition getMedicalRecord :: "MemStorage \<Rightarrow> nat \<Rightarrow> MedicalRecord option" where
  "getMedicalRecord s i = Map_get (medicalRecords s) i"

definition getMedicalRecordsByPatient :: "MemStorage \<Rightarrow> string \<Rightarrow> MedicalRecord list" where
  "getMedicalRecordsByPatient s p =
     filter (\<lambda>record. toLowerCase (record_patientAddress record) = toLowerCase p)
       (Map_values (medicalRecords s))"

text \<open>
  The two hashes are generated from the clock and a random source; they are arguments
  here, as is \<open>now\<close>.
\<close>

definition createMedicalRecord ::
  "MemStorage \<Rightarrow> InsertMedicalRecord \<Rightarrow> string \<Rightarrow> string \<Rightarrow> int \<Rightarrow> MedicalRecord \<times> MemStorage"
where
  "createMedicalRecord s ins hash txHash now =
     (let i = currentRecordId s;
          medicalRecord =
            \<lparr>record_id = i, title = ins_title ins, recordType = ins_recordType ins,
             recordDate = ins_recordDate ins, record_patientAddress = ins_patientAddress ins,
             filePath = ins_filePath ins, fileHash = hash, transactionHash = txHash,
             record_createdAt = DateObject now\<rparr>
      in (medicalRecord,
          saveData (s\<lparr>currentRecordId := i + 1,
                      medicalRecords := Map_set i medicalRecord (medicalRecords s)\<rparr>)))"

text \<open>
  One step of the \<^verbatim>\<open>forEach\<close> in \<^verbatim>\<open>deleteMedicalRecord\<close>: the entry comes from the
  snapshot \<^verbatim>\<open>Array.from(entries())\<close>, the map is the live one.
\<close>

definition dropRecordId :: "nat \<Rightarrow> nat \<times> Access \<Rightarrow> Access JsMap \<Rightarrow> Access JsMap" where
  "dropRecordId i e m =
     (let accessId = fst e; access = snd e
      in if i \<in> set (recordIds access) then
           (let updatedRecordIds = filter (\<lambda>recordId. recordId \<noteq> i) (recordIds access)
            in if length updatedRecordIds = 0 then Map_delete accessId m
               else Map_set accessId (access\<lparr>recordIds := updatedRecordIds\<rparr>) m)
         else m)"

text \<open>
  \<open>unlinkOk\<close> says whether \<^verbatim>\<open>fs.unlinkSync\<close> succeeds; when it throws, the error is
  logged and the deletion goes on.
\<close>

definition deleteMedicalRecord :: "MemStorage \<Rightarrow> nat \<Rightarrow> bool \<Rightarrow> bool \<times> MemStorage" where
  "deleteMedicalRecord s i unlinkOk =
     (case Map_get (medicalRecords s) i of
        None \<Rightarrow> (False, s)
      | Some record \<Rightarrow>
          (let fs1 = (if filePath record \<noteq> [] \<and> filePath record \<in> files s \<and> unlinkOk
                      then files s - {filePath record} else files s);
               perms = fold (dropRecordId i) (accessPermissions s) (accessPermissions s);
               success = Map_has (medicalRecords s) i;
               s1 = s\<lparr>files := fs1, accessPermissions := perms,
                      medicalRecords := Map_delete i (medicalRecords s)\<rparr>
           in (success, if success then saveData s1 else s1)))"

subsection \<open>Access permission operations\<close>

definition getAccess :: "MemStorage \<Rightarrow> nat \<Rightarrow> Access option" where
  "getAccess s i = Map_get (accessPermissions s) i"

definition getAccessByPatient :: "MemStorage \<Rightarrow> string \<Rightarrow> Access list" where
  "getAccessByPatient s p =
     filter (\<lambda>access. toLowerCase (access_patientAddress access) = toLowerCase p)
       (Map_values (accessPermissions s))"

definition getAccessByDoctor :: "MemStorage \<Rightarrow> string \<Rightarrow> Access list" where
  "getAccessByDoctor s d =
     filter (\<lambda>access. toLowerCase (doctorAddress access) = toLowerCase d)
       (Map_values (accessPermissions s))"

definition createAccess ::
  "MemStorage \<Rightarrow> string \<Rightarrow> string \<Rightarrow> nat list \<Rightarrow> Duration \<Rightarrow> int \<Rightarrow> Access \<times> MemStorage"
where
  "createAccess s p d ids dur now =
     (let i = currentAccessId s;
          accessPermission =
            \<lparr>access_id = i, access_patientAddress = p, doctorAddress = d, recordIds = ids,
             duration = dur, access_createdAt = DateObject now\<rparr>
      in (accessPermission,
          saveData (s\<lparr>currentAccessId := i + 1,
                      accessPermissions := Map_set i accessPermission (accessPermissions s)\<rparr>)))"

definition revokeAccess :: "MemStorage \<Rightarrow> nat \<Rightarrow> bool \<times> MemStorage" where
  "revokeAccess s i =
     (let success = Map_has (accessPermissions s) i;
          s1 = s\<lparr>accessPermissions := Map_delete i (accessPermissions s)\<rparr>
      in (success, if success then saveData s1 else s1))"

definition getAccessibleRecordsByDoctor ::
  "MemStorage \<Rightarrow> string \<Rightarrow> Access list \<times> MedicalRecord list"
where
  "getAccessibleRecordsByDoctor s d =
     (let accessList = getAccessByDoctor s d;
          patientAddresses = Set_toArray (map access_patientAddress accessList);
          records = concat (map (getMedicalRecordsByPatient s) patientAddresses)
      in (accessList, records))"

section \<open>The HTTP surface (\<^verbatim>\<open>registerRoutes\<close>)\<close>

text \<open>
  A route answers with an error status or with a value, and returns the store as it has
  left it. The statuses carry the names of the error taxonomy: 400, 401, 403, 404, 409
  and 500.
\<close>

datatype Error = InvalidInput | Unauthorized | Forbidden | NotFound | Conflict | InternalError

text \<open>\<^verbatim>\<open>req.session.user\<close>; a request without it is stopped by \<^verbatim>\<open>authenticate\<close>.\<close>

record SessionUser =
  sess_address :: string
  sess_role :: Role

text \<open>
  The test that the view, download and delete routes each write out for a doctor
  session: some grant of the doctor's, for the record's patient address, holds the
  record's id.
\<close>

definition hasAccess :: "MemStorage \<Rightarrow> string \<Rightarrow> string \<Rightarrow> nat \<Rightarrow> bool" where
  "hasAccess s d p i =
     list_ex (\<lambda>access. toLowerCase (access_patientAddress access) = toLowerCase p
                       \<and> i \<in> set (recordIds access))
       (getAccessByDoctor s d)"

definition mayAccess :: "MemStorage \<Rightarrow> SessionUser \<Rightarrow> MedicalRecord \<Rightarrow> bool" where
  "mayAccess s u record =
     (case sess_role u of
        Patient \<Rightarrow> toLowerCase (sess_address u) = toLowerCase (record_patientAddress record)
      | Doctor \<Rightarrow>
          hasAccess s (sess_address u) (record_patientAddress record) (record_id record))"

text \<open>\<^verbatim>\<open>POST /api/users\<close>. The schema check of the body is the typing of the arguments.\<close>

definition postUsers :: "MemStorage \<Rightarrow> string \<Rightarrow> Role \<Rightarrow> int \<Rightarrow> (Error + User) \<times> MemStorage" where
  "postUsers s a r now =
     (case getUserByAddress s a of
        Some existingUser \<Rightarrow> (Inl Conflict, s)
      | None \<Rightarrow> (let (user, s1) = createUser s a r now in (Inr user, s1)))"

text \<open>
  \<^verbatim>\<open>GET /api/records?patientAddress=\<close>. An absent query parameter is refused as the
  empty one is.
\<close>

definition getRecords :: "SessionUser option \<Rightarrow> MemStorage \<Rightarrow> string \<Rightarrow> Error + MedicalRecord list"
where
  "getRecords sess s patientAddress =
     (case sess of
        None \<Rightarrow> Inl Unauthorized
      | Some u \<Rightarrow>
          if patientAddress = [] then Inl InvalidInput
          else if (case sess_role u of
                     Patient \<Rightarrow> toLowerCase (sess_address u) \<noteq> toLowerCase patientAddress
                   | Doctor \<Rightarrow>
                       \<not> list_ex (\<lambda>access. toLowerCase (access_patientAddress access)
                                             = toLowerCase patientAddress)
                           (getAccessByDoctor s (sess_address u)))
          then Inl Forbidden
          else Inr (getMedicalRecordsByPatient s patientAddress))"

text \<open>
  \<^verbatim>\<open>GET /api/records/view/:id\<close>; the id parameter is \<open>None\<close> when \<^verbatim>\<open>parseInt\<close> gives
  \<^verbatim>\<open>NaN\<close>. The answer is the path of the file that is sent.
\<close>

definition viewRecord :: "SessionUser option \<Rightarrow> MemStorage \<Rightarrow> nat option \<Rightarrow> Error + string" where
  "viewRecord sess s idParam =
     (case sess of
        None \<Rightarrow> Inl Unauthorized
      | Some u \<Rightarrow>
          (case idParam of
             None \<Rightarrow> Inl InvalidInput
           | Some recordId \<Rightarrow>
               (case getMedicalRecord s recordId of
                  None \<Rightarrow> Inl NotFound
                | Some record \<Rightarrow>
                    if \<not> mayAccess s u record then Inl Forbidden
                    else if filePath record \<notin> files s then Inl NotFound
                    else Inr (filePath record))))"

text \<open>\<^verbatim>\<open>DELETE /api/records/:id\<close>.\<close>

definition deleteRecord ::
  "SessionUser option \<Rightarrow> MemStorage \<Rightarrow> nat option \<Rightarrow> bool \<Rightarrow> (Error + unit) \<times> MemStorage"
where
  "deleteRecord sess s idParam unlinkOk =
     (case sess of
        None \<Rightarrow> (Inl Unauthorized, s)
      | Some u \<Rightarrow>
          (case idParam of
             None \<Rightarrow> (Inl InvalidInput, s)
           | Some recordId \<Rightarrow>
               (case getMedicalRecord s recordId of
                  None \<Rightarrow> (Inl NotFound, s)
                | Some record \<Rightarrow>
                    if \<not> mayAccess s u record then (Inl Forbidden, s)
                    else (let (success, s1) = deleteMedicalRecord s recordId unlinkOk
                          in (if success then Inr () else Inl InternalError, s1)))))"

text \<open>
  The part of \<^verbatim>\<open>POST /api/access\<close> that follows the session checks: every id must be
  the id of a record of the patient, and then the grant is created.
\<close>

definition grant ::
  "MemStorage \<Rightarrow> string \<Rightarrow> string \<Rightarrow> nat list \<Rightarrow> Duration \<Rightarrow> int \<Rightarrow> (Error + Access) \<times> MemStorage"
where
  "grant s patientAddress doctorAddr ids dur now =
     (let patientRecords = getMedicalRecordsByPatient s patientAddress;
          patientRecordIds = map record_id patientRecords;
          invalidRecords = filter (\<lambda>i. i \<notin> set patientRecordIds) ids
      in if length invalidRecords > 0 then (Inl InvalidInput, s)
         else (let (access, s1) = createAccess s patientAddress doctorAddr ids dur now
               in (Inr access, s1)))"

text \<open>\<^verbatim>\<open>POST /api/access\<close>, with the body's fields as arguments.\<close>

definition postAccess ::
  "SessionUser option \<Rightarrow> MemStorage \<Rightarrow> string \<Rightarrow> nat list \<Rightarrow> Duration \<Rightarrow> string \<Rightarrow> int
     \<Rightarrow> (Error + Access) \<times> MemStorage"
where
  "postAccess sess s doctorAddr ids accessDuration patientAddress now =
     (case sess of
        None \<Rightarrow> (Inl Unauthorized, s)
      | Some u \<Rightarrow>
          if sess_role u \<noteq> Patient then (Inl Forbidden, s)
          else if toLowerCase (sess_address u) \<noteq> toLowerCase patientAddress
          then (Inl Forbidden, s)
          else grant s patientAddress doctorAddr ids accessDuration now)"

text \<open>\<^verbatim>\<open>DELETE /api/access/:id\<close>.\<close>

definition deleteAccess ::
  "SessionUser option \<Rightarrow> MemStorage \<Rightarrow> nat option \<Rightarrow> (Error + unit) \<times> MemStorage"
where
  "deleteAccess sess s idParam =
     (case sess of
        None \<Rightarrow> (Inl Unauthorized, s)
      | Some u \<Rightarrow>
          (case idParam of
             None \<Rightarrow> (Inl InvalidInput, s)
           | Some accessId \<Rightarrow>
               (case getAccess s accessId of
                  None \<Rightarrow> (Inl NotFound, s)
                | Some access \<Rightarrow>
                    if sess_role u = Patient
                       \<and> toLowerCase (sess_address u) \<noteq> toLowerCase (access_patientAddress access)
                    then (Inl Forbidden, s)
                    else (let (success, s1) = revokeAccess s accessId
                          in (if success then Inr () else Inl InternalError, s1)))))"

section \<open>Notions used in the statements\<close>

text \<open>What it is for a grant to give doctor \<open>d\<close> access to record \<open>i\<close> of patient \<open>p\<close>.\<close>

definition grantsAccess :: "string \<Rightarrow> string \<Rightarrow> nat \<Rightarrow> Access \<Rightarrow> bool" where
  "grantsAccess d p i a \<longleftrightarrow>
     toLowerCase (doctorAddress a) = toLowerCase d
     \<and> toLowerCase (access_patientAddress a) = toLowerCase p
     \<and> i \<in> set (recordIds a)"

text \<open>
  What is left of a grant once record \<open>i\<close> is gone: the grant itself when it does not
  hold \<open>i\<close>, nothing when \<open>i\<close> was all it held, and otherwise the grant without \<open>i\<close>.
\<close>

definition afterDrop :: "nat \<Rightarrow> Access \<Rightarrow> Access option" where
  "afterDrop i a =
     (if i \<in> set (recordIds a)
      then (if filter (\<lambda>j. j \<noteq> i) (recordIds a) = [] then None
            else Some (a\<lparr>recordIds := filter (\<lambda>j. j \<noteq> i) (recordIds a)\<rparr>))
      else Some a)"

text \<open>Save followed by load: the store that a restart builds from the file just written.\<close>

definition reload :: "MemStorage \<Rightarrow> MemStorage" where
  "reload s = MemStorage_new (dataFile (saveData s)) (files s)"

text \<open>The keys of a \<^verbatim>\<open>Map\<close> are unique.\<close>

definition uniqueKeys :: "MemStorage \<Rightarrow> bool" where
  "uniqueKeys s \<longleftrightarrow>
     distinct (Map_keys (users s)) \<and> distinct (Map_keys (medicalRecords s))
     \<and> distinct (Map_keys (accessPermissions s))"

section \<open>A concrete run\<close>

text \<open>
  The end-to-end scenario: on a fresh store, patient \<open>0xP\<close> registers, uploads record 1
  and grants doctor \<open>0xD\<close> access to it; then the patient grants the same record a second
  time, or uploads a second record.
\<close>

definition freshStore :: MemStorage where
  "freshStore = MemStorage_new NoFile {}"

definition registered :: MemStorage where
  "registered = snd (postUsers freshStore ''0xP'' Patient 500)"

definition labA :: InsertMedicalRecord where
  "labA = \<lparr>ins_title = ''Lab A'', ins_recordType = ''lab-result'',
           ins_recordDate = ''2024-01-01'', ins_patientAddress = ''0xP'',
           ins_filePath = ''uploads/file-1.pdf''\<rparr>"

definition recordA :: MedicalRecord where
  "recordA = fst (createMedicalRecord (registered\<lparr>files := {''uploads/file-1.pdf''}\<rparr>)
                    labA ''f0'' ''0xt0'' 1000)"

definition uploaded :: MemStorage where
  "uploaded = snd (createMedicalRecord (registered\<lparr>files := {''uploads/file-1.pdf''}\<rparr>)
                     labA ''f0'' ''0xt0'' 1000)"

definition patientP :: SessionUser where
  "patientP = \<lparr>sess_address = ''0xP'', sess_role = Patient\<rparr>"

definition doctorD :: SessionUser where
  "doctorD = \<lparr>sess_address = ''0xD'', sess_role = Doctor\<rparr>"

definition grantA :: Access where
  "grantA = \<lparr>access_id = 1, access_patientAddress = ''0xP'', doctorAddress = ''0xD'',
             recordIds = [1], duration = SevenDays, access_createdAt = DateObject 2000\<rparr>"

definition granted :: MemStorage where
  "granted = snd (postAccess (Some patientP) uploaded ''0xD'' [1] SevenDays ''0xP'' 2000)"

definition grantedTwice :: MemStorage where
  "grantedTwice = snd (grant granted ''0xP'' ''0xD'' [1] Permanent 3000)"

definition labB :: InsertMedicalRecord where
  "labB = \<lparr>ins_title = ''Scan B'', ins_recordType = ''imaging'',
           ins_recordDate = ''2024-02-01'', ins_patientAddress = ''0xp'',
           ins_filePath = ''uploads/file-2.png''\<rparr>"

definition twoRecords :: MemStorage where
  "twoRecords = snd (createMedicalRecord granted labB ''f1'' ''0xt1'' 4000)"

text \<open>The grant of the run with its clock set back: one day, created at the epoch.\<close>

definition lapsed :: MemStorage where
  "lapsed = granted\<lparr>accessPermissions :=
              map (\<lambda>(k, a). (k, a\<lparr>duration := OneDay, access_createdAt := DateObject 0\<rparr>))
                (accessPermissions granted)\<rparr>"

text \<open>No stored grant has an empty list of record ids.\<close>

definition noEmptyGrant :: "MemStorage \<Rightarrow> bool" where
  "noEmptyGrant s \<longleftrightarrow> (\<forall>a \<in> set (Map_values (accessPermissions s)). recordIds a \<noteq> [])"

section \<open>Basic facts about the store\<close>

lemma saveData_fields [simp]:
  "users (saveData s) = users s"
  "medicalRecords (saveData s) = medicalRecords s"
  "accessPermissions (saveData s) = accessPermissions s"
  "currentUserId (saveData s) = currentUserId s"
  "currentRecordId (saveData s) = currentRecordId s"
  "currentAccessId (saveData s) = currentAccessId s"
  "files (saveData s) = files s"
  by (simp_all add: saveData_def)

lemma Map_set_member: "(k, v) \<in> set (Map_set k v m)"
  unfolding Map_set_def by (induction m) auto

lemma Map_delete_set: "set (Map_delete k m) = {e \<in> set m. fst e \<noteq> k}"
  unfolding Map_delete_def by (auto simp: AList.delete_eq)

lemma hasAccess_iff:
  "hasAccess s d p i \<longleftrightarrow> (\<exists>e \<in> set (accessPermissions s). grantsAccess d p i (snd e))"
  unfolding hasAccess_def getAccessByDoctor_def Map_values_def grantsAccess_def list_ex_iff
  by auto

lemma accessPermissions_createAccess:
  "accessPermissions (snd (createAccess s p d ids dur now)) =
     Map_set (currentAccessId s)
       \<lparr>access_id = currentAccessId s, access_patientAddress = p, doctorAddress = d,
        recordIds = ids, duration = dur, access_createdAt = DateObject now\<rparr>
       (accessPermissions s)"
  by (simp add: createAccess_def Let_def)

lemma fst_createAccess:
  "fst (createAccess s p d ids dur now) =
     \<lparr>access_id = currentAccessId s, access_patientAddress = p, doctorAddress = d,
      recordIds = ids, duration = dur, access_createdAt = DateObject now\<rparr>"
  by (simp add: createAccess_def Let_def)

lemma grant_Inr:
  assumes "fst (grant s p d ids dur now) = Inr g"
  shows "grant s p d ids dur now =
           (Inr (fst (createAccess s p d ids dur now)), snd (createAccess s p d ids dur now))"
    and "g = fst (createAccess s p d ids dur now)"
  using assms by (auto simp: grant_def Let_def split: if_splits prod.splits)

lemma accessPermissions_revokeAccess:
  "accessPermissions (snd (revokeAccess s k)) = Map_delete k (accessPermissions s)"
  by (simp add: revokeAccess_def Let_def)

lemma getAccess_createAccess:
  "getAccess (snd (createAccess s p d ids dur now)) k =
     (if k = currentAccessId s then Some (fst (createAccess s p d ids dur now))
      else getAccess s k)"
  by (simp add: getAccess_def Map_get_def accessPermissions_createAccess fst_createAccess
      Map_set_def update_conv')

lemma users_createUser:
  "users (snd (createUser s a r now)) =
     Map_set (currentUserId s)
       \<lparr>user_id = currentUserId s, address = a, role = r, user_createdAt = DateObject now\<rparr>
       (users s)"
  by (simp add: createUser_def Let_def)

lemma fst_deleteMedicalRecord:
  "Map_get (medicalRecords s) k = Some R \<Longrightarrow> fst (deleteMedicalRecord s k ok)"
  by (simp add: deleteMedicalRecord_def Let_def Map_has_def Map_get_def)

lemma set_Set_toArray_aux:
  "set (fold (\<lambda>x acc. if x \<in> set acc then acc else acc @ [x]) xs ys) = set xs \<union> set ys"
  by (induction xs arbitrary: ys) auto

lemma set_Set_toArray: "set (Set_toArray xs) = set xs"
  by (simp add: Set_toArray_def set_Set_toArray_aux)

subsection \<open>The cascade of a record deletion\<close>

lemma map_of_dropRecordId:
  assumes "map_of m (fst e) = Some (snd e)"
  shows "map_of (dropRecordId i e m) k = (if k = fst e then afterDrop i (snd e) else map_of m k)"
  using assms
  by (simp add: dropRecordId_def afterDrop_def Let_def Map_set_def Map_delete_def
      update_conv' delete_conv')

lemma distinct_dropRecordId:
  "distinct (map fst m) \<Longrightarrow> distinct (map fst (dropRecordId i e m))"
  by (simp add: dropRecordId_def Let_def Map_set_def Map_delete_def distinct_update
      distinct_delete)

lemma distinct_fold_dropRecordId:
  "distinct (map fst m) \<Longrightarrow> distinct (map fst (fold (dropRecordId i) es m))"
  by (induction es arbitrary: m) (simp_all add: distinct_dropRecordId)

lemma map_of_fold_dropRecordId:
  assumes "distinct (map fst es)"
    and "\<forall>e \<in> set es. map_of m (fst e) = Some (snd e)"
  shows "map_of (fold (dropRecordId i) es m) k =
           (case map_of es k of None \<Rightarrow> map_of m k | Some a \<Rightarrow> afterDrop i a)"
  using assms
proof (induction es arbitrary: m)
  case Nil
  then show ?case by simp
next
  case (Cons e es)
  let ?m = "dropRecordId i e m"
  from Cons.prems have e: "map_of m (fst e) = Some (snd e)"
    by simp
  from Cons.prems have fresh: "fst e \<notin> fst ` set es" and dist: "distinct (map fst es)"
    by auto
  have "\<forall>e' \<in> set es. map_of ?m (fst e') = Some (snd e')"
  proof
    fix e' assume e': "e' \<in> set es"
    with fresh have "fst e' \<noteq> fst e" by (metis imageI)
    then show "map_of ?m (fst e') = Some (snd e')"
      using Cons.prems(2) e' by (simp add: map_of_dropRecordId [OF e])
  qed
  from Cons.IH [OF dist this]
  have IH: "map_of (fold (dropRecordId i) es ?m) k =
              (case map_of es k of None \<Rightarrow> map_of ?m k | Some a \<Rightarrow> afterDrop i a)" .
  have hd: "map_of (e # es) k = (if k = fst e then Some (snd e) else map_of es k)"
    by (cases e) simp
  show ?case
  proof (cases "k = fst e")
    case True
    with fresh have "map_of es k = None"
      by (simp add: map_of_eq_None_iff)
    with True IH show ?thesis
      by (simp add: hd map_of_dropRecordId [OF e])
  next
    case False
    with IH show ?thesis
      by (simp add: hd map_of_dropRecordId [OF e] split: option.splits)
  qed
qed

lemma map_of_cascade:
  assumes "distinct (map fst m)"
  shows "map_of (fold (dropRecordId i) m m) k =
           (case map_of m k of None \<Rightarrow> None | Some a \<Rightarrow> afterDrop i a)"
proof -
  have "\<forall>e \<in> set m. map_of m (fst e) = Some (snd e)"
    using assms by simp
  from map_of_fold_dropRecordId [OF assms this, of i k] show ?thesis
    by (simp split: option.splits)
qed

lemma deleteMedicalRecord_None:
  "getMedicalRecord s i = None \<Longrightarrow> deleteMedicalRecord s i ok = (False, s)"
  by (simp add: deleteMedicalRecord_def getMedicalRecord_def)

lemma deleteMedicalRecord_Some:
  assumes "getMedicalRecord s i = Some R"
  shows "fst (deleteMedicalRecord s i ok)"
    and "medicalRecords (snd (deleteMedicalRecord s i ok)) = Map_delete i (medicalRecords s)"
    and "accessPermissions (snd (deleteMedicalRecord s i ok)) =
           fold (dropRecordId i) (accessPermissions s) (accessPermissions s)"
    and "files (snd (deleteMedicalRecord s i ok)) =
           (if filePath R \<noteq> [] \<and> filePath R \<in> files s \<and> ok
            then files s - {filePath R} else files s)"
    and "users (snd (deleteMedicalRecord s i ok)) = users s"
  using assms
  by (simp_all add: deleteMedicalRecord_def getMedicalRecord_def Let_def Map_has_def Map_get_def)

lemma deleteMedicalRecord_grants:
  assumes R: "getMedicalRecord s i = Some R"
    and dist: "distinct (Map_keys (accessPermissions s))"
  shows "getAccess (snd (deleteMedicalRecord s i ok)) k =
           (case getAccess s k of None \<Rightarrow> None | Some a \<Rightarrow> afterDrop i a)"
    and "\<forall>a \<in> set (Map_values (accessPermissions (snd (deleteMedicalRecord s i ok)))).
           i \<notin> set (recordIds a)"
proof -
  let ?s' = "snd (deleteMedicalRecord s i ok)"
  from dist have d: "distinct (map fst (accessPermissions s))"
    by (simp add: Map_keys_def)
  note del = deleteMedicalRecord_Some [OF R, of ok]
  have look: "map_of (accessPermissions ?s') j =
           (case map_of (accessPermissions s) j of None \<Rightarrow> None
            | Some a \<Rightarrow> afterDrop i a)" for j
    by (simp only: del(3) map_of_cascade [OF d])
  have d': "distinct (map fst (accessPermissions ?s'))"
    by (simp only: del(3) distinct_fold_dropRecordId [OF d])
  show "getAccess ?s' k = (case getAccess s k of None \<Rightarrow> None | Some a \<Rightarrow> afterDrop i a)"
    by (simp add: getAccess_def Map_get_def look)
  show "\<forall>a \<in> set (Map_values (accessPermissions ?s')). i \<notin> set (recordIds a)"
  proof
    fix a assume "a \<in> set (Map_values (accessPermissions ?s'))"
    then obtain j where "(j, a) \<in> set (accessPermissions ?s')"
      by (auto simp: Map_values_def)
    with d' have "map_of (accessPermissions ?s') j = Some a"
      by simp
    then obtain a0 where "afterDrop i a0 = Some a"
      by (auto simp: look split: option.splits)
    then show "i \<notin> set (recordIds a)"
      by (auto simp: afterDrop_def split: if_splits)
  qed
qed

lemma deleteMedicalRecord_records:
  assumes "getMedicalRecord s i = Some R"
  shows "getMedicalRecord (snd (deleteMedicalRecord s i ok)) j =
           (if j = i then None else getMedicalRecord s j)"
  by (simp add: getMedicalRecord_def Map_get_def deleteMedicalRecord_Some(2) [OF assms]
      Map_delete_def delete_conv')

subsection \<open>Objects, maps and the counters on load\<close>

lemma Object_put_keys: "fst ` set (Object_put k v ps) = insert k (fst ` set ps)"
  by (induction ps) auto

lemma Object_put_keys_sorted:
  "sorted_wrt (<) (map fst ps) \<Longrightarrow> sorted_wrt (<) (map fst (Object_put k v ps))"
proof (induction ps)
  case Nil
  then show ?case by simp
next
  case (Cons p ps)
  have "fst p < j" if "j \<in> fst ` set (Object_put k v ps)" "\<not> k < fst p" "fst p \<noteq> k" for j
    using that Cons.prems unfolding Object_put_keys by auto
  with Cons show ?case
    by auto
qed

lemma Object_put_fresh_set:
  "k \<notin> fst ` set ps \<Longrightarrow> set (Object_put k v ps) = insert (k, v) (set ps)"
  by (induction ps) auto

lemma Object_fold_sorted:
  "sorted_wrt (<) (map fst obj) \<Longrightarrow>
   sorted_wrt (<) (map fst (fold (\<lambda>(k, v) obj. Object_put k v obj) es obj))"
  by (induction es arbitrary: obj) (auto simp: Object_put_keys_sorted)

lemma Object_fold_set:
  "distinct (map fst es) \<Longrightarrow> fst ` set es \<inter> fst ` set obj = {} \<Longrightarrow>
   set (fold (\<lambda>(k, v) obj. Object_put k v obj) es obj) = set es \<union> set obj"
proof (induction es arbitrary: obj)
  case Nil
  then show ?case by simp
next
  case (Cons e es)
  obtain k v where e: "e = (k, v)" by (cases e)
  from Cons.prems e have fresh: "k \<notin> fst ` set obj" by auto
  then have step: "set (Object_put k v obj) = insert (k, v) (set obj)"
    by (rule Object_put_fresh_set)
  from Cons.prems e have "distinct (map fst es)"
    and "fst ` set es \<inter> fst ` set (Object_put k v obj) = {}"
    by (auto simp: step)
  from Cons.IH [OF this] show ?case
    by (simp add: e step)
qed

lemma Object_fromEntries_set:
  "distinct (map fst es) \<Longrightarrow> set (Object_fromEntries es) = set es"
  by (simp add: Object_fromEntries_def Object_fold_set)

lemma Object_fromEntries_distinct: "distinct (map fst (Object_fromEntries es))"
proof -
  have "sorted_wrt (<) (map fst (Object_fromEntries es))"
    by (simp add: Object_fromEntries_def Object_fold_sorted)
  then show ?thesis
    using strict_sorted_iff by blast
qed

lemma Map_set_fresh: "k \<notin> fst ` set m \<Longrightarrow> Map_set k v m = m @ [(k, v)]"
  unfolding Map_set_def by (induction m) auto

lemma Map_new_aux:
  "distinct (map fst (acc @ es)) \<Longrightarrow> fold (\<lambda>(k, v) m. Map_set k v m) es acc = acc @ es"
proof (induction es arbitrary: acc)
  case Nil
  then show ?case by simp
next
  case (Cons e es)
  obtain k v where e: "e = (k, v)" by (cases e)
  from Cons.prems e have "k \<notin> fst ` set acc" by auto
  then have step: "Map_set k v acc = acc @ [(k, v)]"
    by (rule Map_set_fresh)
  from Cons.prems have "distinct (map fst ((acc @ [e]) @ es))" by simp
  from Cons.IH [OF this] show ?case
    by (simp add: e step)
qed

lemma Map_new_distinct: "distinct (map fst es) \<Longrightarrow> Map_new es = es"
  using Map_new_aux [of "[]" es] by (simp add: Map_new_def)

lemma Math_max0_Max: "Math_max0 ks = (if ks = [] then 0 else Max (set ks))"
proof (cases ks)
  case Nil
  then show ?thesis by (simp add: Math_max0_def)
next
  case (Cons k ks')
  have "fold max ks 0 = Max (set (0 # ks))"
    by (simp only: Max.set_eq_fold)
  also have "\<dots> = Max (set ks)"
    using Cons by (simp add: )
  finally show ?thesis
    using Cons by (simp add: Math_max0_def)
qed
lemma Map_new_json:
  "Map_new (map (apsnd f) (Object_fromEntries m)) = map (apsnd f) (Object_fromEntries m)"
proof -
  have "distinct (map fst (map (apsnd f) (Object_fromEntries m)))"
    by (simp add: Object_fromEntries_distinct comp_def)
  then show ?thesis
    by (rule Map_new_distinct)
qed

lemma keys_json: "Map_keys (map (apsnd f) m) = Map_keys m"
  by (simp add: Map_keys_def comp_def)

lemma reload_maps:
  "users (reload s) = map (apsnd jsonUser) (Object_fromEntries (users s))"
  "medicalRecords (reload s) = map (apsnd jsonRecord) (Object_fromEntries (medicalRecords s))"
  "accessPermissions (reload s) =
     map (apsnd jsonAccess) (Object_fromEntries (accessPermissions s))"
  by (simp_all add: reload_def MemStorage_new_def loadData_def saveData_def loadUsers_def
      loadMedicalRecords_def loadAccessPermissions_def Let_def Map_new_json)

lemma reload_counters:
  "currentUserId (reload s) = Math_max0 (Map_keys (Object_fromEntries (users s))) + 1"
  "currentRecordId (reload s) = Math_max0 (Map_keys (Object_fromEntries (medicalRecords s))) + 1"
  "currentAccessId (reload s) =
     Math_max0 (Map_keys (Object_fromEntries (accessPermissions s))) + 1"
  by (simp_all add: reload_def MemStorage_new_def loadData_def saveData_def loadUsers_def
      loadMedicalRecords_def loadAccessPermissions_def Let_def Map_new_json keys_json)

lemma next_id:
  assumes "distinct (Map_keys m)"
  shows "Math_max0 (Map_keys (Object_fromEntries m)) + 1 =
           (if m = [] then 1 else Max (set (Map_keys m)) + 1)"
proof -
  from assms have "set (Object_fromEntries m) = set m"
    by (simp add: Object_fromEntries_set Map_keys_def)
  then have keys: "set (Map_keys (Object_fromEntries m)) = set (Map_keys m)"
    by (simp add: Map_keys_def)
  show ?thesis
  proof (cases "m = []")
    case True
    then show ?thesis
      by (simp add: Object_fromEntries_def Map_keys_def Math_max0_def)
  next
    case False
    then have "set (Map_keys m) \<noteq> {}"
      by (simp add: Map_keys_def)
    with keys have "Map_keys (Object_fromEntries m) \<noteq> []"
      by (metis set_empty)
    with False keys show ?thesis
      by (simp add: Math_max0_Max)
  qed
qed

subsection \<open>Invariants of the store\<close>

text \<open>Unique keys are kept by every operation of the store.\<close>

lemma Map_new_keys_distinct: "distinct (map fst (Map_new es))"
proof -
  have "distinct (map fst acc) \<Longrightarrow>
        distinct (map fst (fold (\<lambda>(k, v) m. Map_set k v m) es acc))" for acc :: "(nat \<times> 'a) list"
    by (induction es arbitrary: acc) (auto simp: Map_set_def distinct_update)
  from this [of "[]"] show ?thesis
    by (simp add: Map_new_def)
qed

lemma uniqueKeys_new: "uniqueKeys (MemStorage_new disk fs)"
  by (cases disk)
     (auto simp: uniqueKeys_def MemStorage_new_def loadData_def loadUsers_def
        loadMedicalRecords_def loadAccessPermissions_def Let_def Map_keys_def
        Map_new_keys_distinct split: option.splits)

lemma uniqueKeys_kept:
  assumes "uniqueKeys s"
  shows "uniqueKeys (snd (createUser s a r now))"
    and "uniqueKeys (snd (createMedicalRecord s ins h t now))"
    and "uniqueKeys (snd (deleteMedicalRecord s i ok))"
    and "uniqueKeys (snd (createAccess s p d ids dur now))"
    and "uniqueKeys (snd (revokeAccess s i))"
  using assms
  by (auto simp: uniqueKeys_def Map_keys_def createUser_def createMedicalRecord_def
      deleteMedicalRecord_def createAccess_def revokeAccess_def Let_def Map_set_def
      Map_delete_def distinct_update distinct_delete distinct_fold_dropRecordId
      split: option.splits)

lemma Map_set_set: "set (Map_set k v m) \<subseteq> insert (k, v) (set m)"
  unfolding Map_set_def by (induction m) auto

lemma noEmptyGrant_kept:
  assumes "noEmptyGrant s"
  shows "noEmptyGrant (snd (createUser s a r now))"
    and "noEmptyGrant (snd (createMedicalRecord s ins h t now))"
    and "noEmptyGrant (snd (revokeAccess s k))"
    and "ids \<noteq> [] \<Longrightarrow> noEmptyGrant (snd (createAccess s p d ids dur now))"
    and "distinct (Map_keys (accessPermissions s)) \<Longrightarrow>
         noEmptyGrant (snd (deleteMedicalRecord s i ok))"
proof -
  show "noEmptyGrant (snd (createUser s a r now))"
    using assms by (simp add: noEmptyGrant_def createUser_def Let_def)
  show "noEmptyGrant (snd (createMedicalRecord s ins h t now))"
    using assms by (simp add: noEmptyGrant_def createMedicalRecord_def Let_def)
  show "noEmptyGrant (snd (revokeAccess s k))"
    using assms
    by (auto simp: noEmptyGrant_def accessPermissions_revokeAccess Map_values_def Map_delete_set)
  show "noEmptyGrant (snd (createAccess s p d ids dur now))" if "ids \<noteq> []"
    using assms that Map_set_set [of "currentAccessId s" _ "accessPermissions s"]
    by (fastforce simp: noEmptyGrant_def accessPermissions_createAccess Map_values_def)
  show "noEmptyGrant (snd (deleteMedicalRecord s i ok))"
    if dist: "distinct (Map_keys (accessPermissions s))"
  proof (cases "getMedicalRecord s i")
    case None
    with assms show ?thesis
      by (simp add: deleteMedicalRecord_None)
  next
    case (Some R)
    let ?m = "accessPermissions s"
    let ?m' = "fold (dropRecordId i) ?m ?m"
    from dist have d: "distinct (map fst ?m)"
      by (simp add: Map_keys_def)
    have "recordIds a \<noteq> []" if "(k, a) \<in> set ?m'" for k a
    proof -
      from that distinct_fold_dropRecordId [OF d] have "map_of ?m' k = Some a"
        by simp
      then obtain a0 where a0: "map_of ?m k = Some a0" and a: "afterDrop i a0 = Some a"
        by (auto simp: map_of_cascade [OF d] split: option.splits)
      from a0 have "(k, a0) \<in> set ?m"
        by (rule map_of_SomeD)
      with assms have "recordIds a0 \<noteq> []"
        by (force simp: noEmptyGrant_def Map_values_def)
      with a show ?thesis
        by (auto simp: afterDrop_def split: if_splits)
    qed
    then show ?thesis
      by (auto simp: noEmptyGrant_def Map_values_def deleteMedicalRecord_Some(3) [OF Some])
  qed
qed

section \<open>Access decisions\<close>

text \<open>
  C1 (as amended). \<open>hasAccess D P i\<close> holds exactly when some stored grant has doctor
  address \<open>D\<close> and patient address \<open>P\<close>, both up to letter case, and holds \<open>i\<close> among its
  record ids. It holds right after a successful \<open>grant P D ids dur\<close> with \<open>i\<close> in \<open>ids\<close>.
  Right after \<open>revoke k\<close> it holds exactly when a grant stored under another id than \<open>k\<close>
  gives that access: so it is false after the revocation of a grant when no other grant
  for the same doctor and patient holds \<open>i\<close>.
\<close>

theorem hasAccess_grant_revoke:
  "(hasAccess s D P i \<longleftrightarrow>
      (\<exists>a \<in> set (Map_values (accessPermissions s)).
          toLowerCase (doctorAddress a) = toLowerCase D
          \<and> toLowerCase (access_patientAddress a) = toLowerCase P
          \<and> i \<in> set (recordIds a)))
   \<and> (fst (grant s P D ids dur now) = Inr g \<and> i \<in> set ids
        \<longrightarrow> hasAccess (snd (grant s P D ids dur now)) D P i)
   \<and> (hasAccess (snd (revokeAccess s k)) D P i \<longleftrightarrow>
        (\<exists>e \<in> set (accessPermissions s).
            fst e \<noteq> k
            \<and> toLowerCase (doctorAddress (snd e)) = toLowerCase D
            \<and> toLowerCase (access_patientAddress (snd e)) = toLowerCase P
            \<and> i \<in> set (recordIds (snd e))))"
proof (intro conjI impI)
  show "hasAccess s D P i \<longleftrightarrow>
      (\<exists>a \<in> set (Map_values (accessPermissions s)).
          toLowerCase (doctorAddress a) = toLowerCase D
          \<and> toLowerCase (access_patientAddress a) = toLowerCase P
          \<and> i \<in> set (recordIds a))"
    by (auto simp: hasAccess_iff grantsAccess_def Map_values_def)
next
  assume h: "fst (grant s P D ids dur now) = Inr g \<and> i \<in> set ids"
  let ?c = "createAccess s P D ids dur now"
  from h have eq: "grant s P D ids dur now = (Inr (fst ?c), snd ?c)"
    using grant_Inr(1) by blast
  have "(currentAccessId s, fst ?c) \<in> set (accessPermissions (snd ?c))"
    by (simp add: accessPermissions_createAccess fst_createAccess Map_set_member)
  moreover have "grantsAccess D P i (fst ?c)"
    using h by (simp add: grantsAccess_def fst_createAccess)
  ultimately have "hasAccess (snd ?c) D P i"
    unfolding hasAccess_iff by force
  then show "hasAccess (snd (grant s P D ids dur now)) D P i"
    by (simp add: eq)
next
  show "hasAccess (snd (revokeAccess s k)) D P i \<longleftrightarrow>
        (\<exists>e \<in> set (accessPermissions s).
            fst e \<noteq> k
            \<and> toLowerCase (doctorAddress (snd e)) = toLowerCase D
            \<and> toLowerCase (access_patientAddress (snd e)) = toLowerCase P
            \<and> i \<in> set (recordIds (snd e)))"
    unfolding hasAccess_iff grantsAccess_def accessPermissions_revokeAccess Map_delete_set
    by fastforce
qed

text \<open>
  On the concrete run: the grant of record 1 gives the doctor access, and revoking it,
  the only grant, takes the access away.
\<close>

theorem hasAccess_grant_revoke_witness:
  "hasAccess (snd (grant uploaded ''0xP'' ''0xD'' [1] SevenDays 2000)) ''0xD'' ''0xP'' 1
   \<and> \<not> hasAccess (snd (revokeAccess granted 1)) ''0xD'' ''0xP'' 1"
proof -
  have a: "fst (grant uploaded ''0xP'' ''0xD'' [1] SevenDays 2000) = Inr grantA
      \<and> 1 \<in> set [1::nat]"
    by code_simp
  have b: "\<not> (\<exists>e \<in> set (accessPermissions granted).
            fst e \<noteq> 1
            \<and> toLowerCase (doctorAddress (snd e)) = toLowerCase ''0xD''
            \<and> toLowerCase (access_patientAddress (snd e)) = toLowerCase ''0xP''
            \<and> 1 \<in> set (recordIds (snd e)))"
    by code_simp
  from a b hasAccess_grant_revoke [of granted "''0xD''" "''0xP''" 1 "[1]" SevenDays 2000 _ 1]
       hasAccess_grant_revoke [of uploaded "''0xD''" "''0xP''" 1 "[1]" SevenDays 2000 _ 1]
  show ?thesis by blast
qed

text \<open>
  The claim as stated fails: the patient grants the doctor record 1 a second time (the
  grant gets id 2) and revokes that second grant; the first grant is still stored, and
  the doctor still has access.
\<close>

theorem hasAccess_after_revoke_counterexample:
  "map_sum id access_id (fst (grant granted ''0xP'' ''0xD'' [1] Permanent 3000)) = Inr 2
   \<and> 1 \<in> set [1::nat]
   \<and> fst (revokeAccess grantedTwice 2)
   \<and> hasAccess (snd (revokeAccess grantedTwice 2)) ''0xD'' ''0xP'' 1"
  by code_simp

text \<open>
  C2. The decision \<open>hasAccess D P i\<close> does not read the duration or the creation time of
  any grant: whatever values these two fields are given, grant by grant, the decision is
  the same. A grant whose duration has elapsed and that was not revoked gives the access
  an unexpired grant gives.
\<close>

theorem hasAccess_ignores_expiry:
  "hasAccess (s\<lparr>accessPermissions :=
       map (\<lambda>(k, a). (k, a\<lparr>duration := newDuration k a,
                                access_createdAt := newCreatedAt k a\<rparr>))
         (accessPermissions s)\<rparr>) D P i
   = hasAccess s D P i"
  unfolding hasAccess_iff grantsAccess_def by (force simp: image_iff)

text \<open>On the concrete run: the one-day grant created at the epoch still gives the doctor access.\<close>

theorem hasAccess_ignores_expiry_witness:
  "hasAccess lapsed ''0xd'' ''0xP'' 1"
proof -
  have a: "hasAccess granted ''0xd'' ''0xP'' 1"
    by code_simp
  from hasAccess_ignores_expiry
         [where s = granted and newDuration = "\<lambda>k a. OneDay"
            and newCreatedAt = "\<lambda>k a. DateObject 0" and D = "''0xd''" and P = "''0xP''"
            and i = 1] a
  show ?thesis
    by (simp add: lapsed_def)
qed

section \<open>Granting and registering\<close>

text \<open>
  C5. \<open>grant P D ids dur\<close> fails with \<open>InvalidInput\<close> and leaves the store as it was
  whenever some id in \<open>ids\<close> is not the id of a record that \<open>getMedicalRecordsByPatient\<close>
  lists for \<open>P\<close>; when every id is, a new grant with these fields is stored under the
  next access id, the other grants staying as they were. The route \<open>POST /api/access\<close>
  is \<open>grant\<close> for the session of patient \<open>P\<close>.
\<close>

theorem grant_checks_ownership:
  "((\<exists>i \<in> set ids. i \<notin> record_id ` set (getMedicalRecordsByPatient s P))
      \<longrightarrow> grant s P D ids dur now = (Inl InvalidInput, s))
   \<and> ((\<forall>i \<in> set ids. i \<in> record_id ` set (getMedicalRecordsByPatient s P))
      \<longrightarrow> (\<exists>g s1. grant s P D ids dur now = (Inr g, s1)
            \<and> g = \<lparr>access_id = currentAccessId s, access_patientAddress = P,
                   doctorAddress = D, recordIds = ids, duration = dur,
                   access_createdAt = DateObject now\<rparr>
            \<and> getAccess s1 (access_id g) = Some g
            \<and> (\<forall>k. k \<noteq> access_id g \<longrightarrow> getAccess s1 k = getAccess s k)))
   \<and> (sess_role u = Patient \<and> toLowerCase (sess_address u) = toLowerCase P
      \<longrightarrow> postAccess (Some u) s D ids dur P now = grant s P D ids dur now)"
proof (intro conjI impI)
  assume "\<exists>i \<in> set ids. i \<notin> record_id ` set (getMedicalRecordsByPatient s P)"
  then have "filter (\<lambda>i. i \<notin> set (map record_id (getMedicalRecordsByPatient s P))) ids \<noteq> []"
    by (auto simp: filter_empty_conv)
  then show "grant s P D ids dur now = (Inl InvalidInput, s)"
    by (simp add: grant_def Let_def)
next
  assume all: "\<forall>i \<in> set ids. i \<in> record_id ` set (getMedicalRecordsByPatient s P)"
  let ?c = "createAccess s P D ids dur now"
  from all have "filter (\<lambda>i. i \<notin> set (map record_id (getMedicalRecordsByPatient s P))) ids = []"
    by (auto simp: filter_empty_conv)
  then have "grant s P D ids dur now = (Inr (fst ?c), snd ?c)"
    by (simp add: grant_def Let_def split: prod.splits)
  moreover have "getAccess (snd ?c) (access_id (fst ?c)) = Some (fst ?c)"
    by (simp add: getAccess_createAccess) (simp add: fst_createAccess)
  moreover have "\<forall>k. k \<noteq> access_id (fst ?c) \<longrightarrow> getAccess (snd ?c) k = getAccess s k"
    by (simp add: getAccess_createAccess) (simp add: fst_createAccess)
  ultimately show "\<exists>g s1. grant s P D ids dur now = (Inr g, s1)
            \<and> g = \<lparr>access_id = currentAccessId s, access_patientAddress = P,
                   doctorAddress = D, recordIds = ids, duration = dur,
                   access_createdAt = DateObject now\<rparr>
            \<and> getAccess s1 (access_id g) = Some g
            \<and> (\<forall>k. k \<noteq> access_id g \<longrightarrow> getAccess s1 k = getAccess s k)"
    using fst_createAccess [of s P D ids dur now] by metis
next
  assume "sess_role u = Patient \<and> toLowerCase (sess_address u) = toLowerCase P"
  then show "postAccess (Some u) s D ids dur P now = grant s P D ids dur now"
    by (simp add: postAccess_def)
qed

text \<open>On the concrete run: ids 1 and 7 are refused, 7 being no record of the patient, and id 1 alone is granted.\<close>

theorem grant_checks_ownership_witness:
  "grant uploaded ''0xP'' ''0xD'' [1, 7] SevenDays 2000 = (Inl InvalidInput, uploaded)
   \<and> (\<exists>s1. grant uploaded ''0xP'' ''0xD'' [1] SevenDays 2000 = (Inr grantA, s1)
          \<and> getAccess s1 1 = Some grantA)
   \<and> postAccess (Some patientP) uploaded ''0xD'' [1] SevenDays ''0xP'' 2000 =
       grant uploaded ''0xP'' ''0xD'' [1] SevenDays 2000"
proof -
  have a: "\<exists>i \<in> set [1, 7]. i \<notin> record_id ` set (getMedicalRecordsByPatient uploaded ''0xP'')"
    by code_simp
  have b: "\<forall>i \<in> set [1]. i \<in> record_id ` set (getMedicalRecordsByPatient uploaded ''0xP'')"
    by code_simp
  have c: "sess_role patientP = Patient
           \<and> toLowerCase (sess_address patientP) = toLowerCase ''0xP''"
    by code_simp
  have d: "currentAccessId uploaded = 1"
    by code_simp
  from a grant_checks_ownership [of "[1, 7]" uploaded "''0xP''" "''0xD''" SevenDays 2000 patientP]
  have 1: "grant uploaded ''0xP'' ''0xD'' [1, 7] SevenDays 2000 = (Inl InvalidInput, uploaded)"
    by blast
  from b c grant_checks_ownership [of "[1]" uploaded "''0xP''" "''0xD''" SevenDays 2000 patientP]
  have 2: "(\<exists>g s1. grant uploaded ''0xP'' ''0xD'' [1] SevenDays 2000 = (Inr g, s1)
            \<and> g = \<lparr>access_id = currentAccessId uploaded, access_patientAddress = ''0xP'',
                   doctorAddress = ''0xD'', recordIds = [1], duration = SevenDays,
                   access_createdAt = DateObject 2000\<rparr>
            \<and> getAccess s1 (access_id g) = Some g
            \<and> (\<forall>k. k \<noteq> access_id g \<longrightarrow> getAccess s1 k = getAccess uploaded k))"
    and 3: "postAccess (Some patientP) uploaded ''0xD'' [1] SevenDays ''0xP'' 2000 =
       grant uploaded ''0xP'' ''0xD'' [1] SevenDays 2000"
    by blast+
  from 2 have "\<exists>s1. grant uploaded ''0xP'' ''0xD'' [1] SevenDays 2000 = (Inr grantA, s1)
          \<and> getAccess s1 1 = Some grantA"
    by (auto simp: d grantA_def)
  with 1 3 show ?thesis
    by blast
qed

text \<open>
  C7. After a registration of address \<open>A\<close> has succeeded, a registration of any address
  equal to \<open>A\<close> up to letter case fails with \<open>Conflict\<close>, whatever the role asked for, and
  leaves the store, its users among the rest, unchanged.
\<close>

theorem register_twice_conflict:
  assumes ok: "fst (postUsers s A r now) = Inr u"
    and same: "toLowerCase A' = toLowerCase A"
  shows "postUsers (snd (postUsers s A r now)) A' r' now' =
           (Inl Conflict, snd (postUsers s A r now))"
proof -
  let ?s1 = "snd (createUser s A r now)"
  let ?user = "\<lparr>user_id = currentUserId s, address = A, role = r,
                 user_createdAt = DateObject now\<rparr>"
  from ok have s1: "snd (postUsers s A r now) = ?s1"
    by (simp add: postUsers_def case_prod_beta split: option.splits)
  have "?user \<in> set (Map_values (users ?s1))"
    using Map_set_member [of "currentUserId s" ?user "users s"]
    by (force simp: users_createUser Map_values_def)
  moreover have "toLowerCase (address ?user) = toLowerCase A'"
    using same by simp
  ultimately have "getUserByAddress ?s1 A' \<noteq> None"
    unfolding getUserByAddress_def find_None_iff by blast
  then obtain e where "getUserByAddress ?s1 A' = Some e"
    by blast
  then have "postUsers ?s1 A' r' now' = (Inl Conflict, ?s1)"
    by (simp add: postUsers_def)
  then show ?thesis
    by (simp only: s1)
qed

text \<open>On the concrete run: \<open>0xP\<close> is registered as a patient, and \<open>0xp\<close> cannot register as a doctor.\<close>

theorem register_twice_conflict_witness:
  "postUsers registered ''0xp'' Doctor 900 = (Inl Conflict, registered)"
proof -
  have a: "fst (postUsers freshStore ''0xP'' Patient 500) =
             Inr \<lparr>user_id = 1, address = ''0xP'', role = Patient,
                  user_createdAt = DateObject 500\<rparr>"
    by code_simp
  have b: "toLowerCase ''0xp'' = toLowerCase ''0xP''"
    by code_simp
  from register_twice_conflict [OF a b, of Doctor 900] show ?thesis
    by (simp add: registered_def)
qed

section \<open>What a doctor sees and may delete\<close>

text \<open>
  C6. \<open>getAccessibleRecordsByDoctor D\<close> returns the stored grants whose doctor address is
  \<open>D\<close> up to letter case, and with them the records of every patient address that
  occurs in these grants: all the records that patient owns, whether or not a grant
  holds their ids and whatever the durations are.
\<close>

theorem accessible_records_for_doctor:
  "fst (getAccessibleRecordsByDoctor s D) =
     filter (\<lambda>a. toLowerCase (doctorAddress a) = toLowerCase D)
       (Map_values (accessPermissions s))
   \<and> set (snd (getAccessibleRecordsByDoctor s D)) =
       (\<Union>p \<in> access_patientAddress ` set (fst (getAccessibleRecordsByDoctor s D)).
          {r \<in> set (Map_values (medicalRecords s)).
             toLowerCase (record_patientAddress r) = toLowerCase p})"
  by (auto simp: getAccessibleRecordsByDoctor_def Let_def set_Set_toArray
      getAccessByDoctor_def getMedicalRecordsByPatient_def)

text \<open>On the concrete run: the doctor's one grant holds record 1, and both records of the patient are returned.\<close>

theorem accessible_records_for_doctor_witness:
  "fst (getAccessibleRecordsByDoctor twoRecords ''0xd'') =
     filter (\<lambda>a. toLowerCase (doctorAddress a) = toLowerCase ''0xd'')
       (Map_values (accessPermissions twoRecords))
   \<and> map recordIds (fst (getAccessibleRecordsByDoctor twoRecords ''0xd'')) = [[1]]
   \<and> map record_id (snd (getAccessibleRecordsByDoctor twoRecords ''0xd'')) = [1, 2]"
proof -
  have a: "map recordIds (fst (getAccessibleRecordsByDoctor twoRecords ''0xd'')) = [[1]]
           \<and> map record_id (snd (getAccessibleRecordsByDoctor twoRecords ''0xd'')) = [1, 2]"
    by code_simp
  from accessible_records_for_doctor [of twoRecords "''0xd''"] a show ?thesis
    by blast
qed

text \<open>
  C9. For a doctor session and a patient address \<open>P\<close> (a non-empty string, as the route
  requires of its parameter): if some stored grant has the doctor's address and the
  address \<open>P\<close>, both up to letter case, then the record listing answers with every record
  that \<open>P\<close> owns, whichever ids the grant holds.
\<close>

theorem doctor_lists_all_patient_records:
  assumes "sess_role u = Doctor" and "P \<noteq> []"
    and "\<exists>a \<in> set (Map_values (accessPermissions s)).
           toLowerCase (doctorAddress a) = toLowerCase (sess_address u)
           \<and> toLowerCase (access_patientAddress a) = toLowerCase P"
  shows "getRecords (Some u) s P = Inr (getMedicalRecordsByPatient s P)
         \<and> set (getMedicalRecordsByPatient s P) =
             {r \<in> set (Map_values (medicalRecords s)).
                toLowerCase (record_patientAddress r) = toLowerCase P}"
proof
  from assms(3) have "list_ex (\<lambda>access. toLowerCase (access_patientAddress access) = toLowerCase P)
                        (getAccessByDoctor s (sess_address u))"
    unfolding list_ex_iff getAccessByDoctor_def by auto
  then show "getRecords (Some u) s P = Inr (getMedicalRecordsByPatient s P)"
    using assms(1,2) by (simp add: getRecords_def)
next
  show "set (getMedicalRecordsByPatient s P) =
             {r \<in> set (Map_values (medicalRecords s)).
                toLowerCase (record_patientAddress r) = toLowerCase P}"
    by (auto simp: getMedicalRecordsByPatient_def)
qed

text \<open>On the concrete run: the grant holds record 1 only, and the listing gives the doctor records 1 and 2.\<close>

theorem doctor_lists_all_patient_records_witness:
  "getRecords (Some doctorD) twoRecords ''0xP'' =
     Inr (getMedicalRecordsByPatient twoRecords ''0xP'')
   \<and> map record_id (getMedicalRecordsByPatient twoRecords ''0xP'') = [1, 2]
   \<and> map recordIds (Map_values (accessPermissions twoRecords)) = [[1]]"
proof -
  have a: "sess_role doctorD = Doctor"
    by code_simp
  have b: "''0xP'' \<noteq> []"
    by simp
  have c: "\<exists>a \<in> set (Map_values (accessPermissions twoRecords)).
             toLowerCase (doctorAddress a) = toLowerCase (sess_address doctorD)
             \<and> toLowerCase (access_patientAddress a) = toLowerCase ''0xP''"
    by code_simp
  have d: "map record_id (getMedicalRecordsByPatient twoRecords ''0xP'') = [1, 2]
           \<and> map recordIds (Map_values (accessPermissions twoRecords)) = [[1]]"
    by code_simp
  from doctor_lists_all_patient_records [OF a b c] d show ?thesis
    by blast
qed

text \<open>
  C10. For a doctor session and a stored record \<open>R\<close>: if some grant of the doctor for
  the patient address of \<open>R\<close> holds the id of \<open>R\<close>, the deletion route answers with
  success, and its answer and the store it leaves are those of the same request made by
  the owning patient. In the store it leaves, no record is stored under the id of \<open>R\<close>
  and every other record is kept; the file of \<open>R\<close> is gone when it existed and the
  unlink succeeded, and the files are untouched otherwise; and, the grants having unique
  ids, no grant holds the id of \<open>R\<close>: a grant that held only that id is absent, a grant
  that held other ids as well is stored with exactly that id removed, a grant that did
  not hold it is unchanged, and no grant has appeared.
\<close>

theorem doctor_deletes_shared_record:
  assumes "sess_role u = Doctor"
    and "getMedicalRecord s (record_id R) = Some R"
    and "\<exists>a \<in> set (Map_values (accessPermissions s)).
           toLowerCase (doctorAddress a) = toLowerCase (sess_address u)
           \<and> toLowerCase (access_patientAddress a) = toLowerCase (record_patientAddress R)
           \<and> record_id R \<in> set (recordIds a)"
  shows "deleteRecord (Some u) s (Some (record_id R)) unlinkOk =
           (Inr (), snd (deleteMedicalRecord s (record_id R) unlinkOk))
         \<and> deleteRecord (Some u) s (Some (record_id R)) unlinkOk =
             deleteRecord (Some \<lparr>sess_address = record_patientAddress R, sess_role = Patient\<rparr>)
               s (Some (record_id R)) unlinkOk
         \<and> getMedicalRecord (snd (deleteRecord (Some u) s (Some (record_id R)) unlinkOk))
               (record_id R) = None
         \<and> (\<forall>j. j \<noteq> record_id R \<longrightarrow>
               getMedicalRecord (snd (deleteRecord (Some u) s (Some (record_id R)) unlinkOk)) j =
                 getMedicalRecord s j)
         \<and> files (snd (deleteRecord (Some u) s (Some (record_id R)) unlinkOk)) =
               (if filePath R \<noteq> [] \<and> filePath R \<in> files s \<and> unlinkOk
                then files s - {filePath R} else files s)
         \<and> (distinct (Map_keys (accessPermissions s)) \<longrightarrow>
               (\<forall>a \<in> set (Map_values (accessPermissions
                    (snd (deleteRecord (Some u) s (Some (record_id R)) unlinkOk)))).
                  record_id R \<notin> set (recordIds a))
               \<and> (\<forall>k a. getAccess s k = Some a \<longrightarrow>
                    getAccess (snd (deleteRecord (Some u) s (Some (record_id R)) unlinkOk)) k =
                      (if record_id R \<in> set (recordIds a)
                       then (if filter (\<lambda>j. j \<noteq> record_id R) (recordIds a) = [] then None
                             else Some (a\<lparr>recordIds :=
                                           filter (\<lambda>j. j \<noteq> record_id R) (recordIds a)\<rparr>))
                       else Some a))
               \<and> (\<forall>k. getAccess s k = None \<longrightarrow>
                    getAccess (snd (deleteRecord (Some u) s (Some (record_id R)) unlinkOk)) k
                      = None))"
proof -
  let ?d = "snd (deleteMedicalRecord s (record_id R) unlinkOk)"
  have ok: "fst (deleteMedicalRecord s (record_id R) unlinkOk)"
    using assms(2) by (simp add: getMedicalRecord_def fst_deleteMedicalRecord)
  have "hasAccess s (sess_address u) (record_patientAddress R) (record_id R)"
    using assms(3) unfolding hasAccess_iff grantsAccess_def Map_values_def by auto
  then have "mayAccess s u R"
    using assms(1) by (simp add: mayAccess_def)
  then have a: "deleteRecord (Some u) s (Some (record_id R)) unlinkOk = (Inr (), ?d)"
    using assms(2) ok by (simp add: deleteRecord_def case_prod_beta)
  have "mayAccess s \<lparr>sess_address = record_patientAddress R, sess_role = Patient\<rparr> R"
    by (simp add: mayAccess_def)
  then have b: "deleteRecord (Some \<lparr>sess_address = record_patientAddress R, sess_role = Patient\<rparr>)
               s (Some (record_id R)) unlinkOk = (Inr (), ?d)"
    using assms(2) ok by (simp add: deleteRecord_def case_prod_beta)
  have s': "snd (deleteRecord (Some u) s (Some (record_id R)) unlinkOk) = ?d"
    by (simp add: a)
  have c: "getMedicalRecord ?d (record_id R) = None"
    and d: "\<forall>j. j \<noteq> record_id R \<longrightarrow> getMedicalRecord ?d j = getMedicalRecord s j"
    by (simp_all add: deleteMedicalRecord_records [OF assms(2)])
  have e: "files ?d = (if filePath R \<noteq> [] \<and> filePath R \<in> files s \<and> unlinkOk
                then files s - {filePath R} else files s)"
    by (rule deleteMedicalRecord_Some(4) [OF assms(2)])
  have f: "(\<forall>a \<in> set (Map_values (accessPermissions ?d)). record_id R \<notin> set (recordIds a))
         \<and> (\<forall>k a. getAccess s k = Some a \<longrightarrow>
              getAccess ?d k =
                (if record_id R \<in> set (recordIds a)
                 then (if filter (\<lambda>j. j \<noteq> record_id R) (recordIds a) = [] then None
                       else Some (a\<lparr>recordIds :=
                                     filter (\<lambda>j. j \<noteq> record_id R) (recordIds a)\<rparr>))
                 else Some a))
         \<and> (\<forall>k. getAccess s k = None \<longrightarrow> getAccess ?d k = None)"
    if dist: "distinct (Map_keys (accessPermissions s))"
    using deleteMedicalRecord_grants(2) [OF assms(2) dist, of unlinkOk]
    by (simp add: deleteMedicalRecord_grants(1) [OF assms(2) dist] afterDrop_def)
  from a b c d e f show ?thesis
    unfolding s' by (intro conjI impI) simp_all
qed

text \<open>
  On the concrete run: the doctor deletes record 1, which the grant holds; the record,
  its file and the grant are gone.
\<close>

theorem doctor_deletes_shared_record_witness:
  "deleteRecord (Some doctorD) granted (Some (record_id recordA)) True =
     deleteRecord (Some \<lparr>sess_address = record_patientAddress recordA, sess_role = Patient\<rparr>)
       granted (Some (record_id recordA)) True
   \<and> fst (deleteRecord (Some doctorD) granted (Some (record_id recordA)) True) = Inr ()
   \<and> getMedicalRecord (snd (deleteRecord (Some doctorD) granted (Some (record_id recordA)) True))
        (record_id recordA) = None
   \<and> files (snd (deleteRecord (Some doctorD) granted (Some (record_id recordA)) True)) = {}
   \<and> getAccess (snd (deleteRecord (Some doctorD) granted (Some (record_id recordA)) True)) 1
        = None"
proof -
  let ?s' = "snd (deleteRecord (Some doctorD) granted (Some (record_id recordA)) True)"
  have a: "sess_role doctorD = Doctor"
    by code_simp
  have b: "getMedicalRecord granted (record_id recordA) = Some recordA"
    by code_simp
  have c: "\<exists>a \<in> set (Map_values (accessPermissions granted)).
             toLowerCase (doctorAddress a) = toLowerCase (sess_address doctorD)
             \<and> toLowerCase (access_patientAddress a) = toLowerCase (record_patientAddress recordA)
             \<and> record_id recordA \<in> set (recordIds a)"
    by code_simp
  have d: "distinct (Map_keys (accessPermissions granted))"
    by code_simp
  have e: "getAccess granted 1 = Some grantA"
    by code_simp
  have f: "record_id recordA \<in> set (recordIds grantA)
           \<and> filter (\<lambda>j. j \<noteq> record_id recordA) (recordIds grantA) = []"
    by code_simp
  have g: "(if filePath recordA \<noteq> [] \<and> filePath recordA \<in> files granted \<and> True
            then files granted - {filePath recordA} else files granted) = {}"
    by code_simp
  note t = doctor_deletes_shared_record [OF a b c, of True]
  note t1 = t [THEN conjunct1]
  note t2 = t [THEN conjunct2, THEN conjunct1]
  note t3 = t [THEN conjunct2, THEN conjunct2, THEN conjunct1]
  note t5 = t [THEN conjunct2, THEN conjunct2, THEN conjunct2, THEN conjunct2, THEN conjunct1]
  note t6 = t [THEN conjunct2, THEN conjunct2, THEN conjunct2, THEN conjunct2, THEN conjunct2,
               THEN mp, OF d, THEN conjunct2, THEN conjunct1, rule_format, OF e]
  from t1 have 2: "fst (deleteRecord (Some doctorD) granted (Some (record_id recordA)) True)
                     = Inr ()"
    by simp
  from t5 g have 4: "files ?s' = {}"
    by (rule trans)
  from t6 f have 5: "getAccess ?s' 1 = None"
    by simp
  from t2 2 t3 4 5 show ?thesis
    by (intro conjI)
qed

section \<open>Deleting a record\<close>

text \<open>
  C3. \<open>deleteMedicalRecord i\<close> answers false and changes nothing when no record is stored
  under \<open>i\<close>. For a stored record \<open>R\<close>, in a store whose grants have unique ids, the
  deletion of \<open>R\<close> answers true, and afterwards: no record is stored under the id of \<open>R\<close>;
  no stored grant holds that id; a grant that held only that id is absent; a grant that
  held other ids as well is stored with exactly that id removed; a grant that did not
  hold it is unchanged; and no grant has appeared.
\<close>

theorem deleteMedicalRecord_cascade:
  "(getMedicalRecord s i = None \<longrightarrow> deleteMedicalRecord s i unlinkOk = (False, s))
   \<and> (distinct (Map_keys (accessPermissions s)) \<and> getMedicalRecord s (record_id R) = Some R
      \<longrightarrow> fst (deleteMedicalRecord s (record_id R) unlinkOk)
        \<and> getMedicalRecord (snd (deleteMedicalRecord s (record_id R) unlinkOk)) (record_id R) = None
        \<and> (\<forall>a \<in> set (Map_values (accessPermissions
                 (snd (deleteMedicalRecord s (record_id R) unlinkOk)))).
              record_id R \<notin> set (recordIds a))
        \<and> (\<forall>k a. getAccess s k = Some a \<longrightarrow>
              getAccess (snd (deleteMedicalRecord s (record_id R) unlinkOk)) k =
                (if record_id R \<in> set (recordIds a)
                 then (if filter (\<lambda>j. j \<noteq> record_id R) (recordIds a) = [] then None
                       else Some (a\<lparr>recordIds := filter (\<lambda>j. j \<noteq> record_id R) (recordIds a)\<rparr>))
                 else Some a))
        \<and> (\<forall>k. getAccess s k = None \<longrightarrow>
              getAccess (snd (deleteMedicalRecord s (record_id R) unlinkOk)) k = None))"
proof (intro conjI impI)
  assume "getMedicalRecord s i = None"
  then show "deleteMedicalRecord s i unlinkOk = (False, s)"
    by (rule deleteMedicalRecord_None)
next
  assume h: "distinct (Map_keys (accessPermissions s)) \<and> getMedicalRecord s (record_id R) = Some R"
  let ?s' = "snd (deleteMedicalRecord s (record_id R) unlinkOk)"
  from h have dist: "distinct (map fst (accessPermissions s))"
    and R: "getMedicalRecord s (record_id R) = Some R"
    by (simp_all add: Map_keys_def)
  note del = deleteMedicalRecord_Some [OF R, of unlinkOk]
  have look: "map_of (accessPermissions ?s') k =
           (case map_of (accessPermissions s) k of None \<Rightarrow> None
            | Some a \<Rightarrow> afterDrop (record_id R) a)" for k
    by (simp only: del(3) map_of_cascade [OF dist])
  have dist': "distinct (map fst (accessPermissions ?s'))"
    by (simp only: del(3) distinct_fold_dropRecordId [OF dist])
  show "fst (deleteMedicalRecord s (record_id R) unlinkOk)"
    by (rule del(1))
  show "getMedicalRecord ?s' (record_id R) = None"
    by (simp add: getMedicalRecord_def Map_get_def del(2) Map_delete_def delete_conv')
  show "\<forall>a \<in> set (Map_values (accessPermissions ?s')). record_id R \<notin> set (recordIds a)"
  proof
    fix a assume "a \<in> set (Map_values (accessPermissions ?s'))"
    then obtain k where "(k, a) \<in> set (accessPermissions ?s')"
      by (auto simp: Map_values_def)
    with dist' have "map_of (accessPermissions ?s') k = Some a"
      by simp
    then obtain a0 where "afterDrop (record_id R) a0 = Some a"
      by (auto simp: look split: option.splits)
    then show "record_id R \<notin> set (recordIds a)"
      by (auto simp: afterDrop_def split: if_splits)
  qed
  show "\<forall>k a. getAccess s k = Some a \<longrightarrow>
              getAccess ?s' k =
                (if record_id R \<in> set (recordIds a)
                 then (if filter (\<lambda>j. j \<noteq> record_id R) (recordIds a) = [] then None
                       else Some (a\<lparr>recordIds := filter (\<lambda>j. j \<noteq> record_id R) (recordIds a)\<rparr>))
                 else Some a)"
    by (simp add: getAccess_def Map_get_def look afterDrop_def)
  show "\<forall>k. getAccess s k = None \<longrightarrow> getAccess ?s' k = None"
    by (simp add: getAccess_def Map_get_def look)
qed

text \<open>On the concrete run: there is no record 7; deleting record 1 removes it together with grant 1, which held nothing else.\<close>

theorem deleteMedicalRecord_cascade_witness:
  "deleteMedicalRecord granted 7 True = (False, granted)
   \<and> fst (deleteMedicalRecord granted (record_id recordA) True)
   \<and> getMedicalRecord (snd (deleteMedicalRecord granted (record_id recordA) True))
         (record_id recordA) = None
   \<and> getAccess (snd (deleteMedicalRecord granted (record_id recordA) True)) 1 = None"
proof -
  have a: "getMedicalRecord granted 7 = None"
    by code_simp
  have b: "distinct (Map_keys (accessPermissions granted))
           \<and> getMedicalRecord granted (record_id recordA) = Some recordA"
    by code_simp
  have c: "getAccess granted 1 = Some grantA"
    by code_simp
  have d: "record_id recordA \<in> set (recordIds grantA)
           \<and> filter (\<lambda>j. j \<noteq> record_id recordA) (recordIds grantA) = []"
    by code_simp
  from a deleteMedicalRecord_cascade [of granted 7 True recordA]
  have 1: "deleteMedicalRecord granted 7 True = (False, granted)"
    by blast
  from b deleteMedicalRecord_cascade [of granted 7 True recordA]
  have 2: "fst (deleteMedicalRecord granted (record_id recordA) True)"
    and 3: "getMedicalRecord (snd (deleteMedicalRecord granted (record_id recordA) True))
              (record_id recordA) = None"
    and 4: "\<forall>k a. getAccess granted k = Some a \<longrightarrow>
              getAccess (snd (deleteMedicalRecord granted (record_id recordA) True)) k =
                (if record_id recordA \<in> set (recordIds a)
                 then (if filter (\<lambda>j. j \<noteq> record_id recordA) (recordIds a) = [] then None
                       else Some (a\<lparr>recordIds := filter (\<lambda>j. j \<noteq> record_id recordA) (recordIds a)\<rparr>))
                 else Some a)"
    by blast+
  from 4 c d have "getAccess (snd (deleteMedicalRecord granted (record_id recordA) True)) 1 = None"
    by simp
  with 1 2 3 show ?thesis
    by blast
qed

section \<open>Persistence\<close>

text \<open>
  What save followed by load does give back. For every state of the store (its maps
  having unique keys), the users, records and grants are the same under the same ids,
  each with the same field values except \<open>createdAt\<close>, which comes back as the ISO string
  of its instant (\<open>toJSON\<close>: a Date object becomes that string, a string stays as it is).
  Each next-id counter after the load is the greatest id of its collection plus one, or 1
  when the collection is empty; with no data file the three collections are empty and
  the counters are 1.
\<close>

theorem save_load_roundtrip:
  "(uniqueKeys s \<longrightarrow>
      set (users (reload s)) = apsnd jsonUser ` set (users s)
      \<and> set (medicalRecords (reload s)) = apsnd jsonRecord ` set (medicalRecords s)
      \<and> set (accessPermissions (reload s)) = apsnd jsonAccess ` set (accessPermissions s)
      \<and> currentUserId (reload s) =
          (if users s = [] then 1 else Max (set (Map_keys (users s))) + 1)
      \<and> currentRecordId (reload s) =
          (if medicalRecords s = [] then 1 else Max (set (Map_keys (medicalRecords s))) + 1)
      \<and> currentAccessId (reload s) =
          (if accessPermissions s = [] then 1
           else Max (set (Map_keys (accessPermissions s))) + 1))
   \<and> users (MemStorage_new NoFile fs) = []
   \<and> medicalRecords (MemStorage_new NoFile fs) = []
   \<and> accessPermissions (MemStorage_new NoFile fs) = []
   \<and> currentUserId (MemStorage_new NoFile fs) = 1
   \<and> currentRecordId (MemStorage_new NoFile fs) = 1
   \<and> currentAccessId (MemStorage_new NoFile fs) = 1"
proof (intro conjI impI)
  assume u: "uniqueKeys s"
  then have du: "distinct (map fst (users s))" and dr: "distinct (map fst (medicalRecords s))"
    and da: "distinct (map fst (accessPermissions s))"
    by (simp_all add: uniqueKeys_def Map_keys_def)
  show "set (users (reload s)) = apsnd jsonUser ` set (users s)"
    by (simp add: reload_maps Object_fromEntries_set [OF du])
  show "set (medicalRecords (reload s)) = apsnd jsonRecord ` set (medicalRecords s)"
    by (simp add: reload_maps Object_fromEntries_set [OF dr])
  show "set (accessPermissions (reload s)) = apsnd jsonAccess ` set (accessPermissions s)"
    by (simp add: reload_maps Object_fromEntries_set [OF da])
  show "currentUserId (reload s) =
          (if users s = [] then 1 else Max (set (Map_keys (users s))) + 1)"
    using u by (simp only: reload_counters next_id uniqueKeys_def)
  show "currentRecordId (reload s) =
          (if medicalRecords s = [] then 1 else Max (set (Map_keys (medicalRecords s))) + 1)"
    using u by (simp only: reload_counters next_id uniqueKeys_def)
  show "currentAccessId (reload s) =
          (if accessPermissions s = [] then 1
           else Max (set (Map_keys (accessPermissions s))) + 1)"
    using u by (simp only: reload_counters next_id uniqueKeys_def)
qed (simp_all add: MemStorage_new_def loadData_def)

text \<open>On the concrete run: one user, one record and one grant come back, and the counters are 2.\<close>

theorem save_load_roundtrip_witness:
  "set (users (reload granted)) = apsnd jsonUser ` set (users granted)
   \<and> set (medicalRecords (reload granted)) = apsnd jsonRecord ` set (medicalRecords granted)
   \<and> set (accessPermissions (reload granted)) =
       apsnd jsonAccess ` set (accessPermissions granted)
   \<and> currentUserId (reload granted) = 2
   \<and> currentRecordId (reload granted) = 2
   \<and> currentAccessId (reload granted) = 2"
proof -
  have a: "uniqueKeys granted"
    by code_simp
  have b: "(if users granted = [] then 1 else Max (set (Map_keys (users granted))) + 1) = 2
     \<and> (if medicalRecords granted = [] then 1
         else Max (set (Map_keys (medicalRecords granted))) + 1) = 2
     \<and> (if accessPermissions granted = [] then 1
         else Max (set (Map_keys (accessPermissions granted))) + 1) = 2"
    by code_simp
  from a save_load_roundtrip [of granted "{}"]
  have "set (users (reload granted)) = apsnd jsonUser ` set (users granted)
      \<and> set (medicalRecords (reload granted)) = apsnd jsonRecord ` set (medicalRecords granted)
      \<and> set (accessPermissions (reload granted)) =
          apsnd jsonAccess ` set (accessPermissions granted)
      \<and> currentUserId (reload granted) =
          (if users granted = [] then 1 else Max (set (Map_keys (users granted))) + 1)
      \<and> currentRecordId (reload granted) =
          (if medicalRecords granted = [] then 1
           else Max (set (Map_keys (medicalRecords granted))) + 1)
      \<and> currentAccessId (reload granted) =
          (if accessPermissions granted = [] then 1
           else Max (set (Map_keys (accessPermissions granted))) + 1)"
    by blast
  with b show ?thesis
    by presburger
qed

text \<open>
  C8. The claim is that save followed by load gives back identical users, records and
  grants, with the same ids and the same field values, and counters at the greatest id
  plus one (or 1). The code breaks it on \<open>createdAt\<close>: \<open>createUser\<close> stores a Date object,
  \<open>saveData\<close> writes it as a string, and \<open>loadData\<close>, which turns the keys back into
  numbers, takes the values as they are parsed. For the store in which \<open>0xP\<close> has just
  registered, the users after save and load are not the users before: the stored user
  carried a Date object and now carries a string.
\<close>

theorem save_load_createdAt_not_revived:
  "uniqueKeys registered
   \<and> set (users (reload registered)) \<noteq> set (users registered)
   \<and> map (user_createdAt \<circ> snd) (users registered) = [DateObject 500]
   \<and> map (user_createdAt \<circ> snd) (users (reload registered)) = [IsoString 500]"
  by code_simp

section \<open>Grants without records\<close>

text \<open>
  C4. The claim is that no reachable state holds a grant with an empty list of record
  ids. The route \<open>POST /api/access\<close> refutes it: for the registered patient \<open>0xP\<close> and the
  empty list of ids there is no invalid id, the route answers with the new grant, and
  the grant is stored with no record id.
\<close>

theorem postAccess_accepts_empty_recordIds:
  "fst (postAccess (Some patientP) registered ''0xD'' [] SevenDays ''0xP'' 2000) =
     Inr \<lparr>access_id = 1, access_patientAddress = ''0xP'', doctorAddress = ''0xD'',
          recordIds = [], duration = SevenDays, access_createdAt = DateObject 2000\<rparr>
   \<and> map recordIds (Map_values (accessPermissions
        (snd (postAccess (Some patientP) registered ''0xD'' [] SevenDays ''0xP'' 2000)))) = [[]]"
  by code_simp

end
